theory Spec2Isabelle
  imports
    Complex_Main
    "HOL-Library.Char_ord"
    "HOL-Library.Log_Nat"
    "HOL-Library.List_Lexorder"
    "HOL-Library.Product_Lexorder"
begin

section \<open>Numbers\<close>

text \<open>
  Amounts and hours are Python floats in \<^verbatim>\<open>app.py\<close>. They are modelled by their exact
  rational value: binary rounding, infinities and NaN are outside the model.
  Integers are Python's unbounded integers, except in the ID column of a loaded table,
  which pandas holds as \<^verbatim>\<open>float64\<close> or \<^verbatim>\<open>int64\<close>.
\<close>

definition round_half_even :: "rat \<Rightarrow> int" where
  \<comment> \<open>nearest integer, a tie going to the even neighbour, as Python's \<^verbatim>\<open>round\<close> does\<close>
  "round_half_even x =
     (let f = \<lfloor>x\<rfloor>; r = x - of_int f
      in if r < 1 / 2 then f
         else if 1 / 2 < r then f + 1
         else if even f then f else f + 1)"

definition py_round :: "rat \<Rightarrow> nat \<Rightarrow> rat" where
  \<comment> \<open>\<^verbatim>\<open>round(x, n)\<close>\<close>
  "py_round x n = of_int (round_half_even (x * 10 ^ n)) / 10 ^ n"

definition py_int :: "rat \<Rightarrow> int" where
  \<comment> \<open>\<^verbatim>\<open>int(x)\<close> and \<^verbatim>\<open>astype(int)\<close>: truncation towards zero\<close>
  "py_int x = (if 0 \<le> x then \<lfloor>x\<rfloor> else \<lceil>x\<rceil>)"

definition DURATION_OPTIONS :: "int list" where
  "DURATION_OPTIONS = [30, 45, 60, 75, 90, 105, 120]"

definition calc_price :: "int \<Rightarrow> rat" where
  \<comment> \<open>\<^verbatim>\<open>return round(duration_min / 60 * 65, 2)\<close>\<close>
  "calc_price duration_min = py_round (of_int duration_min / 60 * 65) 2"

section \<open>Sheets, rows and the store\<close>

text \<open>
  A cell of a worksheet as \<^verbatim>\<open>get_all_records\<close> returns it: text (the empty string for
  an empty cell), or a number where the text reads as one.
\<close>

datatype cell = Txt string | IntC int | NumC rat

text \<open>
  One row under the header \<^verbatim>\<open>COLUMNS\<close>. The type of the ID column is a parameter: a
  \<open>cell\<close> in the worksheet, an \<open>int\<close> in the table \<^verbatim>\<open>load_records\<close> returns. The other
  columns carry the types of the values the application writes into them. A worksheet
  that has no ID column is read as one whose ID cells all hold 0, the value that
  \<^verbatim>\<open>load_records\<close> fills a missing numeric column with.
\<close>

record 'i record_row =
  ID :: 'i
  date :: string
  employee_name :: string
  client_name :: string
  service_item :: string
  duration :: int
  hours :: rat
  service_income :: rat
  tip :: rat
  total_income :: rat

definition set_ID :: "'a record_row \<Rightarrow> 'b \<Rightarrow> 'b record_row" where
  \<comment> \<open>assignment to the ID column of one row; every other column is kept\<close>
  "set_ID r i =
     \<lparr>ID = i, date = date r, employee_name = employee_name r, client_name = client_name r,
      service_item = service_item r, duration = duration r, hours = hours r,
      service_income = service_income r, tip = tip r, total_income = total_income r\<rparr>"

text \<open>
  The spreadsheet \<^verbatim>\<open>Massage_Work_Log\<close>: the rows of the worksheets \<^verbatim>\<open>SHEET_RECORD\<close> and
  \<^verbatim>\<open>SHEET_STAFF\<close> below their headers. Both worksheets carry the full header, which is
  what \<^verbatim>\<open>get_or_create_worksheet\<close>, \<^verbatim>\<open>save_all\<close> and \<^verbatim>\<open>save_staff\<close> write.
\<close>

record store =
  sheet_record :: "cell record_row list"
  sheet_staff :: "string list"

datatype error = ValidationError | NotFoundError

section \<open>Reading and writing the records\<close>

fun to_numeric :: "cell \<Rightarrow> rat option" where
  \<comment> \<open>\<^verbatim>\<open>pd.to_numeric(..., errors="coerce")\<close> on one cell; \<open>None\<close> is NaN\<close>
  "to_numeric (IntC i) = Some (of_int i)"
| "to_numeric (NumC q) = Some q"
| "to_numeric (Txt s) = None"

text \<open>
  The ID column in pandas. Where every cell is an integer the coerced column has an
  integer dtype and holds the integers themselves; otherwise it is a \<^verbatim>\<open>float64\<close> column,
  in which an integer cell is rounded to the nearest double (a tie to the even
  mantissa) and a blank is NaN. \<^verbatim>\<open>astype(int)\<close> casts to \<^verbatim>\<open>int64\<close>: an integer column
  wraps, a float column truncates, and a float outside the range casts to the least
  \<^verbatim>\<open>int64\<close>. Integers are taken below \<open>2 ^ 1024\<close> in magnitude.
\<close>

definition float64_of_int :: "int \<Rightarrow> int" where
  "float64_of_int i =
     (if \<bar>i\<bar> < 2 ^ 53 then i
      else let ulp = 2 ^ nat (bitlen \<bar>i\<bar> - 53)
           in round_half_even (of_int i / of_int ulp) * ulp)"

definition wrap_int64 :: "int \<Rightarrow> int" where
  "wrap_int64 i = (i + 2 ^ 63) mod 2 ^ 64 - 2 ^ 63"

definition float_to_int64 :: "rat \<Rightarrow> int" where
  "float_to_int64 x =
     (let t = py_int x in if - (2 ^ 63) \<le> t \<and> t < 2 ^ 63 then t else - (2 ^ 63))"

fun is_int_cell :: "cell \<Rightarrow> bool" where
  "is_int_cell (IntC i) = True"
| "is_int_cell (NumC q) = False"
| "is_int_cell (Txt s) = False"

fun to_float64 :: "cell \<Rightarrow> rat option" where
  \<comment> \<open>one cell of a \<^verbatim>\<open>float64\<close> column\<close>
  "to_float64 (IntC i) = Some (of_int (float64_of_int i))"
| "to_float64 (NumC q) = Some q"
| "to_float64 (Txt s) = None"

definition to_numeric_col :: "cell list \<Rightarrow> rat option list" where
  \<comment> \<open>\<^verbatim>\<open>pd.to_numeric(df["ID"], errors="coerce")\<close> on the column\<close>
  "to_numeric_col cells =
     (if list_all is_int_cell cells then map to_numeric cells else map to_float64 cells)"

fun fill_blank :: "int \<Rightarrow> rat option list \<Rightarrow> rat list" where
  \<comment> \<open>the loop over \<^verbatim>\<open>df["ID"].items()\<close>, the first argument being \<^verbatim>\<open>max_id\<close>; the
      column that has a blank is a \<^verbatim>\<open>float64\<close> column, which stores \<^verbatim>\<open>max_id\<close> as a double\<close>
  "fill_blank max_id [] = []"
| "fill_blank max_id (None # col) =
     of_int (float64_of_int (max_id + 1)) # fill_blank (max_id + 1) col"
| "fill_blank max_id (Some v # col) = v # fill_blank max_id col"

definition astype_int :: "cell list \<Rightarrow> rat \<Rightarrow> int" where
  \<comment> \<open>\<^verbatim>\<open>astype(int)\<close> on one value of the coerced column of the given cells\<close>
  "astype_int cells x =
     (if list_all is_int_cell cells then wrap_int64 (py_int x) else float_to_int64 x)"

definition repair_ids :: "cell list \<Rightarrow> int list" where
  \<comment> \<open>the ID column after lines 115 to 125; the list of the values that are not NaN is
      empty exactly when \<^verbatim>\<open>df["ID"].isna().all()\<close>\<close>
  "repair_ids cells =
     (let col = to_numeric_col cells
      in case List.map_filter (\<lambda>v. v) col of
           [] \<Rightarrow> map (\<lambda>n. wrap_int64 (int n)) [1..<length col + 1]
         | v # vs \<Rightarrow> map (astype_int cells) (fill_blank (py_int (fold max vs v)) col))"

definition load_records :: "cell record_row list \<Rightarrow> int record_row list" where
  "load_records ws = map (\<lambda>(r, i). set_ID r i) (zip ws (repair_ids (map ID ws)))"

definition save_all :: "int record_row list \<Rightarrow> cell record_row list" where
  \<comment> \<open>the worksheet is cleared and rewritten; an integer ID is read back as that integer\<close>
  "save_all records_df = map (\<lambda>r. set_ID r (IntC (ID r))) records_df"

section \<open>Reading and writing the staff list\<close>

definition load_staff :: "string list \<Rightarrow> string list" where
  "load_staff ws = ws"

definition save_staff :: "string list \<Rightarrow> string list" where
  "save_staff df = df"

definition ensure_staff_exists :: "string \<Rightarrow> store \<Rightarrow> store" where
  "ensure_staff_exists name st =
     (if name = [] then st
      else let df = load_staff (sheet_staff st)
           in if name \<notin> set df then st\<lparr>sheet_staff := save_staff (df @ [name])\<rparr> else st)"

section \<open>Summary by date and employee\<close>

record summary_row =
  s_date :: string
  s_employee_name :: string
  s_hours :: rat
  s_service_income :: rat
  s_tip :: rat
  s_total_income :: rat

definition group_key :: "int record_row \<Rightarrow> string \<times> string" where
  "group_key r = (date r, employee_name r)"

definition make_summary :: "int record_row list \<Rightarrow> summary_row list" where
  \<comment> \<open>\<^verbatim>\<open>groupby\<close> lists the groups in ascending order of their key; an empty result is
      the table that has only its header\<close>
  "make_summary df =
     (if df = [] then []
      else map (\<lambda>k. let g = filter (\<lambda>r. group_key r = k) df
                     in \<lparr>s_date = fst k, s_employee_name = snd k,
                         s_hours = sum_list (map hours g),
                         s_service_income = sum_list (map service_income g),
                         s_tip = sum_list (map tip g),
                         s_total_income = sum_list (map total_income g)\<rparr>)
               (sort (remdups (map group_key df))))"

section \<open>Export of the whole workbook\<close>

datatype column =
  C_ID | C_date | C_employee_name | C_client_name | C_service_item | C_duration | C_hours
  | C_service_income | C_tip | C_total_income | C_month

definition COLUMNS :: "column list" where
  "COLUMNS = [C_ID, C_date, C_employee_name, C_client_name, C_service_item, C_duration,
              C_hours, C_service_income, C_tip, C_total_income]"

definition STAFF_COLUMNS :: "column list" where
  "STAFF_COLUMNS = [C_employee_name]"

definition SUMMARY_COLUMNS :: "column list" where
  "SUMMARY_COLUMNS = [C_date, C_employee_name, C_hours, C_service_income, C_tip, C_total_income]"

definition MONTHLY_COLUMNS :: "column list" where
  "MONTHLY_COLUMNS = [C_month, C_service_income, C_tip, C_total_income]"

text \<open>
  The names of the sheets of the exported workbook: the four fixed names and, for a
  month sheet, the \<^verbatim>\<open>%Y-%m\<close> string itself.
\<close>

datatype sheet_name = Records_All | Summary_All | Staff_List | Monthly_Summary | Month string

record sheet =
  sheet_name :: sheet_name
  header :: "column list"
  body :: "cell list list"

definition TOTAL_LABEL :: string where
  \<comment> \<open>the two characters of the totals marker, in UTF-8\<close>
  "TOTAL_LABEL = [CHR 0xE5, CHR 0x90, CHR 0x88, CHR 0xE8, CHR 0xAE, CHR 0xA1]"

definition row_cells :: "int record_row \<Rightarrow> cell list" where
  "row_cells r =
     [IntC (ID r), Txt (date r), Txt (employee_name r), Txt (client_name r),
      Txt (service_item r), IntC (duration r), NumC (hours r), NumC (service_income r),
      NumC (tip r), NumC (total_income r)]"

definition summary_cells :: "summary_row \<Rightarrow> cell list" where
  "summary_cells s =
     [Txt (s_date s), Txt (s_employee_name s), NumC (s_hours s), NumC (s_service_income s),
      NumC (s_tip s), NumC (s_total_income s)]"

definition month_keys :: "(string \<Rightarrow> string option) \<Rightarrow> int record_row list \<Rightarrow> string list" where
  \<comment> \<open>\<^verbatim>\<open>sorted(tmp["_ym"].dropna().unique())\<close>, also the group keys of \<^verbatim>\<open>groupby("_ym")\<close>\<close>
  "month_keys to_ym df = sort (remdups (List.map_filter (\<lambda>r. to_ym (date r)) df))"

definition monthly_summary :: "(string \<Rightarrow> string option) \<Rightarrow> int record_row list \<Rightarrow> cell list list" where
  "monthly_summary to_ym df =
     map (\<lambda>ym. let g = filter (\<lambda>r. to_ym (date r) = Some ym) df
                in [Txt ym, NumC (sum_list (map service_income g)), NumC (sum_list (map tip g)),
                    NumC (sum_list (map total_income g))])
         (month_keys to_ym df)"

definition month_sheet :: "(string \<Rightarrow> string option) \<Rightarrow> int record_row list \<Rightarrow> string \<Rightarrow> sheet" where
  "month_sheet to_ym df ym =
     (let month_df = filter (\<lambda>r. to_ym (date r) = Some ym) df;
          total_row = [Txt [], Txt TOTAL_LABEL, Txt [], Txt [], Txt [], Txt [], Txt [],
                       NumC (sum_list (map service_income month_df)),
                       NumC (sum_list (map tip month_df)),
                       NumC (sum_list (map total_income month_df))]
      in \<lparr>sheet_name = Month ym, header = COLUMNS,
          body = map row_cells month_df @ [total_row]\<rparr>)"

text \<open>
  The first argument stands for \<^verbatim>\<open>pd.to_datetime(..., errors="coerce")\<close> followed by
  \<^verbatim>\<open>strftime("%Y-%m")\<close>: the month of a date text, \<open>None\<close> where the text is no date.
  The result lists the sheets in the order they are written.
\<close>

definition to_excel_all_bytes :: "(string \<Rightarrow> string option) \<Rightarrow> store \<Rightarrow> sheet list" where
  "to_excel_all_bytes to_ym st =
     (let records_df = load_records (sheet_record st);
          staff_df = load_staff (sheet_staff st);
          summary_df = make_summary records_df;
          base = [\<lparr>sheet_name = Records_All, header = COLUMNS, body = map row_cells records_df\<rparr>,
                  \<lparr>sheet_name = Summary_All, header = SUMMARY_COLUMNS,
                   body = map summary_cells summary_df\<rparr>,
                  \<lparr>sheet_name = Staff_List, header = STAFF_COLUMNS,
                   body = map (\<lambda>n. [Txt n]) staff_df\<rparr>]
      in if records_df \<noteq> []
         then base
              @ [\<lparr>sheet_name = Monthly_Summary, header = MONTHLY_COLUMNS,
                  body = monthly_summary to_ym records_df\<rparr>]
              @ map (month_sheet to_ym records_df) (month_keys to_ym records_df)
         else base)"

definition month_sheet_names :: "sheet list \<Rightarrow> string list" where
  \<comment> \<open>the months of the month sheets of a workbook, in the order of the sheets\<close>
  "month_sheet_names wb =
     List.map_filter (\<lambda>s. case sheet_name s of Month ym \<Rightarrow> Some ym | _ \<Rightarrow> None) wb"

definition iso_year_month :: "string \<Rightarrow> string option" where
  \<comment> \<open>a reader of the dates the application writes, \<^verbatim>\<open>%Y-%m-%d\<close>, used on examples\<close>
  "iso_year_month s =
     (if length s = 10 \<and> s ! 4 = CHR ''-'' \<and> s ! 7 = CHR ''-''
         \<and> list_all (\<lambda>c. c \<in> set ''0123456789'') (take 4 s @ take 2 (drop 5 s) @ drop 8 s)
      then Some (take 7 s) else None)"

section \<open>The pages\<close>

text \<open>
  Each page is modelled at the press of its button: it takes the store and the values
  of the form, and returns what it reports together with the store it leaves.
\<close>

record add_form =
  date_value :: string \<comment> \<open>the date of the form, as \<^verbatim>\<open>strftime("%Y-%m-%d")\<close> prints it\<close>
  staff_name :: string
  client_name_in :: string
  duration_in :: int
  service_income_in :: rat
  tip_in :: rat

definition page_add_record :: "store \<Rightarrow> add_form \<Rightarrow> (error + int) \<times> store" where
  "page_add_record st f =
     (let records_df = load_records (sheet_record st);
          hrs = py_round (of_int (duration_in f) / 60) 2
      in if staff_name f = [] \<or> client_name_in f = [] then (Inl ValidationError, st)
         else
           let new_id = (if records_df \<noteq> [] then Max (set (map ID records_df)) + 1 else 1);
               total = py_round (service_income_in f + tip_in f) 2;
               record = \<lparr>ID = new_id, date = date_value f, employee_name = staff_name f,
                         client_name = client_name_in f, service_item = ''Massage'',
                         duration = duration_in f, hours = hrs,
                         service_income = service_income_in f, tip = tip_in f,
                         total_income = total\<rparr>;
               st1 = ensure_staff_exists (staff_name f) st
           in (Inr new_id, st1\<lparr>sheet_record := save_all (records_df @ [record])\<rparr>))"

record edit_form =
  edit_date :: string
  edit_staff :: string
  edit_client :: string
  edit_duration :: int
  edit_income :: rat
  edit_tip :: rat

definition page_summary_save :: "store \<Rightarrow> int \<Rightarrow> edit_form \<Rightarrow> (error + int) \<times> store" where
  \<comment> \<open>the branch of \<^verbatim>\<open>page_summary\<close> under the save button\<close>
  "page_summary_save st edit_id e =
     (let edit_hours = py_round (of_int (edit_duration e) / 60) 2;
          df_all = load_records (sheet_record st)
      in case filter (\<lambda>i. ID (df_all ! i) = edit_id) [0..<length df_all] of
           [] \<Rightarrow> (Inl NotFoundError, st)
         | idx # _ \<Rightarrow>
             let df_new = df_all[idx := (df_all ! idx)
                   \<lparr>date := edit_date e, employee_name := edit_staff e,
                    client_name := edit_client e, duration := edit_duration e,
                    hours := edit_hours, service_income := edit_income e, tip := edit_tip e,
                    total_income := py_round (edit_income e + edit_tip e) 2\<rparr>];
                 st1 = ensure_staff_exists (edit_staff e) st
             in (Inr edit_id, st1\<lparr>sheet_record := save_all df_new\<rparr>))"


definition derived_fields_ok :: "'i record_row \<Rightarrow> bool" where
  \<comment> \<open>the invariant of the derived columns of a record\<close>
  "derived_fields_ok r \<longleftrightarrow>
     total_income r = py_round (service_income r + tip r) 2
     \<and> hours r = py_round (of_int (duration r) / 60) 2"

section \<open>Auxiliary notions and sample data\<close>

text \<open>
  The repair read in exact arithmetic, and the bound under which the repair of the code
  agrees with it: the column is shorter than \<open>2 ^ 53\<close> and each of its numbers, taken
  with the length of the column, stays below \<open>2 ^ 53\<close> in magnitude, so that neither
  \<^verbatim>\<open>float64\<close> nor \<^verbatim>\<open>int64\<close> alters a value.
\<close>

fun fill_exact :: "int \<Rightarrow> rat option list \<Rightarrow> rat list" where
  "fill_exact max_id [] = []"
| "fill_exact max_id (None # col) = of_int (max_id + 1) # fill_exact (max_id + 1) col"
| "fill_exact max_id (Some v # col) = v # fill_exact max_id col"

definition repair_exact :: "rat option list \<Rightarrow> int list" where
  "repair_exact col =
     (case List.map_filter (\<lambda>v. v) col of
        [] \<Rightarrow> map int [1..<length col + 1]
      | v # vs \<Rightarrow> map py_int (fill_exact (py_int (fold max vs v)) col))"

definition in_int64 :: "int \<Rightarrow> bool" where
  "in_int64 i \<longleftrightarrow> - (2 ^ 63) \<le> i \<and> i < 2 ^ 63"

definition id_bound :: "cell list \<Rightarrow> bool" where
  "id_bound cells \<longleftrightarrow>
     int (length cells) < 2 ^ 53
     \<and> list_all (\<lambda>c. case to_numeric c of None \<Rightarrow> True
                     | Some v \<Rightarrow> \<bar>v\<bar> + of_nat (length cells) < 2 ^ 53) cells"

definition blanks_upto :: "rat option list \<Rightarrow> nat \<Rightarrow> nat" where
  "blanks_upto col i = length (filter (\<lambda>v. v = None) (take (Suc i) col))"

definition sample_row :: "'i \<Rightarrow> string \<Rightarrow> string \<Rightarrow> 'i record_row" where
  "sample_row i d e =
     \<lparr>ID = i, date = d, employee_name = e, client_name = ''Kim'', service_item = ''Massage'',
      duration = 60, hours = 1, service_income = 65, tip = 5, total_income = 70\<rparr>"

definition sample_sheet :: "cell record_row list" where
  "sample_sheet =
     [sample_row (Txt []) ''2025-10-03'' ''Mei'',
      sample_row (IntC 5) ''2025-09-21'' ''Ann'',
      sample_row (Txt ''n/a'') ''2025-10-03'' ''Ann'',
      sample_row (IntC 2) ''2025-10-03'' ''Mei'']"

definition sample_store :: store where
  "sample_store = \<lparr>sheet_record = sample_sheet, sheet_staff = [''Ann'']\<rparr>"

definition sample_add_form :: add_form where
  "sample_add_form =
     \<lparr>date_value = ''2025-11-02'', staff_name = ''Zoe'', client_name_in = ''Lee'',
      duration_in = 45, service_income_in = 50, tip_in = 1 / 2\<rparr>"

definition sample_edit_form :: edit_form where
  "sample_edit_form =
     \<lparr>edit_date = ''2025-11-02'', edit_staff = ''Zoe'', edit_client = ''Lee'',
      edit_duration = 45, edit_income = 50, edit_tip = 1 / 2\<rparr>"

definition new_record :: "int record_row list \<Rightarrow> add_form \<Rightarrow> int record_row" where
  \<comment> \<open>the record that \<^verbatim>\<open>page_add_record\<close> appends to the table it has loaded\<close>
  "new_record records_df f =
     \<lparr>ID = (if records_df \<noteq> [] then Max (set (map ID records_df)) + 1 else 1),
      date = date_value f, employee_name = staff_name f, client_name = client_name_in f,
      service_item = ''Massage'', duration = duration_in f,
      hours = py_round (of_int (duration_in f) / 60) 2,
      service_income = service_income_in f, tip = tip_in f,
      total_income = py_round (service_income_in f + tip_in f) 2\<rparr>"

definition edited_record :: "int record_row \<Rightarrow> edit_form \<Rightarrow> int record_row" where
  \<comment> \<open>the row that \<^verbatim>\<open>page_summary\<close> leaves at the index it has found\<close>
  "edited_record r e =
     r\<lparr>date := edit_date e, employee_name := edit_staff e, client_name := edit_client e,
       duration := edit_duration e, hours := py_round (of_int (edit_duration e) / 60) 2,
       service_income := edit_income e, tip := edit_tip e,
       total_income := py_round (edit_income e + edit_tip e) 2\<rparr>"

definition summary_key :: "summary_row \<Rightarrow> string \<times> string" where
  "summary_key s = (s_date s, s_employee_name s)"

section \<open>Pricing rule\<close>

lemma py_int_of_int: "py_int (of_int i) = i"
  by (simp add: py_int_def)

text \<open>
  Claim C5. For every integer duration \<open>d\<close> the suggested price is
  \<open>round(d / 60 * 65, 2)\<close>; it is 65.00 for 60 minutes and 97.50 for 90 minutes.
  The function reads nothing but its argument and has a value at every duration.
\<close>

theorem calc_price_formula:
  "calc_price d = py_round (of_int d / 60 * 65) 2
   \<and> calc_price 60 = 65
   \<and> calc_price 90 = 195 / 2"
  by (simp add: calc_price_def py_round_def round_half_even_def Let_def)

lemma calc_price_options:
  "map calc_price DURATION_OPTIONS = [65 / 2, 195 / 4, 65, 325 / 4, 195 / 2, 455 / 4, 130]"
  by (simp add: DURATION_OPTIONS_def calc_price_def py_round_def round_half_even_def Let_def)

section \<open>Identity repair on load\<close>

lemma length_fill_exact: "length (fill_exact m col) = length col"
  by (induction m col rule: fill_exact.induct) simp_all

lemma length_repair_exact: "length (repair_exact col) = length col"
  by (cases "List.map_filter (\<lambda>v. v) col")
     (simp_all add: repair_exact_def length_fill_exact del: upt_Suc)

lemma map_filter_all_Some: "List.map_filter (\<lambda>v. v) (map Some xs) = xs"
  by (induction xs) (simp_all add: List.map_filter_simps)

lemma map_filter_Nil_iff: "List.map_filter (\<lambda>v. v) col = [] \<longleftrightarrow> (\<forall>v \<in> set col. v = None)"
  by (induction col) (auto simp: List.map_filter_simps split: option.splits)

lemma set_map_filter_id: "set (List.map_filter (\<lambda>v. v) col) = {v. Some v \<in> set col}"
  by (induction col) (auto simp: List.map_filter_simps split: option.splits)

lemma fill_exact_all_Some: "fill_exact m (map Some xs) = xs"
  by (induction xs) simp_all

lemma repair_exact_valid: "repair_exact (map (\<lambda>i. Some (of_int i)) ids) = ids"
proof (cases ids)
  case Nil
  then show ?thesis by (simp add: repair_exact_def List.map_filter_simps)
next
  case (Cons i js)
  have m: "map (\<lambda>i. Some (rat_of_int i)) ids = map Some (map of_int ids)"
    by simp
  have "List.map_filter (\<lambda>v. v) (map (\<lambda>i. Some (rat_of_int i)) ids) = map of_int ids"
    unfolding m by (rule map_filter_all_Some)
  moreover have "fill_exact k (map (\<lambda>i. Some (rat_of_int i)) ids) = map of_int ids" for k
    unfolding m by (rule fill_exact_all_Some)
  ultimately show ?thesis
    using Cons by (simp add: repair_exact_def py_int_of_int comp_def)
qed

lemma set_ID_set_ID: "set_ID (set_ID r x) y = set_ID r y"
  by (simp add: set_ID_def)

lemma set_ID_same: "set_ID r (ID r) = r"
  by (simp add: set_ID_def)

lemma fill_exact_nth:
  "i < length col \<Longrightarrow>
   fill_exact m col ! i =
     (case col ! i of Some v \<Rightarrow> v
      | None \<Rightarrow> of_int (m + int (length (filter (\<lambda>v. v = None) (take (Suc i) col)))))"
proof (induction m col arbitrary: i rule: fill_exact.induct)
  case (1 max_id)
  then show ?case by simp
next
  case (2 max_id col)
  then show ?case by (cases i) (simp_all split: option.splits)
next
  case (3 max_id v col)
  then show ?case by (cases i) (simp_all split: option.splits)
qed

lemma py_int_mono: "x \<le> y \<Longrightarrow> py_int x \<le> py_int y"
proof -
  assume le: "x \<le> y"
  consider "0 \<le> x" | "x < 0" "y < 0" | "x < 0" "0 \<le> y" by linarith
  then show ?thesis
  proof cases
    case 1
    then show ?thesis using le by (simp add: py_int_def floor_mono)
  next
    case 2
    then show ?thesis using le by (simp add: py_int_def ceiling_mono)
  next
    case 3
    then have "\<lceil>x\<rceil> \<le> 0" and "0 \<le> \<lfloor>y\<rfloor>" by (simp_all add: ceiling_le_zero)
    then have "\<lceil>x\<rceil> \<le> \<lfloor>y\<rfloor>" by (rule order_trans)
    then show ?thesis using 3 by (simp add: py_int_def)
  qed
qed

lemma py_int_of_int_add_nat: "py_int (rat_of_int a + rat_of_nat n) = a + int n"
proof -
  have "rat_of_int a + rat_of_nat n = rat_of_int (a + int n)" by simp
  then show ?thesis by (simp only: py_int_of_int)
qed

lemma py_int_Ints: "v \<in> \<int> \<Longrightarrow> rat_of_int (py_int v) = v"
  by (auto simp: py_int_def elim!: Ints_cases)

lemma blanks_upto_pos: "i < length col \<Longrightarrow> col ! i = None \<Longrightarrow> 0 < blanks_upto col i"
proof -
  assume a: "i < length col" "col ! i = None"
  then have "col ! i \<in> set (filter (\<lambda>v. v = None) (take (Suc i) col))"
    by (simp add: take_Suc_conv_app_nth)
  then show ?thesis
    unfolding blanks_upto_def by (cases "filter (\<lambda>v. v = None) (take (Suc i) col)") auto
qed

lemma blanks_upto_less:
  assumes "i < j" "j < length col" "col ! j = None"
  shows "blanks_upto col i < blanks_upto col j"
proof -
  have "take (Suc j) col = take (Suc i) col @ drop (Suc i) (take j col) @ [col ! j]"
    using assms
    by (metis Suc_leI append_assoc append_take_drop_id less_imp_le_nat take_Suc_conv_app_nth
        take_all_iff take_take min.absorb1 length_take)
  then show ?thesis
    using assms by (simp add: blanks_upto_def)
qed

lemma repair_exact_all_blank:
  "\<forall>v \<in> set col. v = None \<Longrightarrow> repair_exact col = map int [1..<length col + 1]"
  using map_filter_Nil_iff [of col] by (simp add: repair_exact_def)

lemma repair_exact_nth:
  assumes "Some w \<in> set col" and "i < length col"
  shows "repair_exact col ! i =
           (case col ! i of Some v \<Rightarrow> py_int v
            | None \<Rightarrow> py_int (Max {v. Some v \<in> set col}) + int (blanks_upto col i))"
proof -
  obtain v vs where vs: "List.map_filter (\<lambda>v. v) col = v # vs"
    using assms(1) map_filter_Nil_iff [of col] by (cases "List.map_filter (\<lambda>v. v) col") auto
  have "fold max vs v = Max (set (v # vs))"
    by (simp only: Max.set_eq_fold)
  also have "\<dots> = Max {v. Some v \<in> set col}"
    using set_map_filter_id [of col] vs by simp
  finally have m: "fold max vs v = Max {v. Some v \<in> set col}" .
  have "repair_exact col ! i = py_int (fill_exact (py_int (Max {v. Some v \<in> set col})) col ! i)"
    using vs m assms(2) by (simp add: repair_exact_def length_fill_exact)
  then show ?thesis
    using assms(2)
    by (simp add: fill_exact_nth blanks_upto_def py_int_of_int_add_nat split: option.split)
qed

lemma valid_le_Max: "Some v \<in> set col \<Longrightarrow> v \<le> Max {v. Some v \<in> set col}"
proof -
  assume a: "Some v \<in> set col"
  have "{v. Some v \<in> set col} = set (List.map_filter (\<lambda>v. v) col)"
    by (simp add: set_map_filter_id)
  then have "finite {v. Some v \<in> set col}"
    by (metis List.finite_set)
  then show ?thesis using a by simp
qed

lemma Max_valid_in: "Some w \<in> set col \<Longrightarrow> Some (Max {v. Some v \<in> set col}) \<in> set col"
proof -
  assume a: "Some w \<in> set col"
  have "{v. Some v \<in> set col} = set (List.map_filter (\<lambda>v. v) col)"
    by (simp add: set_map_filter_id)
  then have "finite {v. Some v \<in> set col}"
    by (metis List.finite_set)
  moreover have "{v. Some v \<in> set col} \<noteq> {}" using a by auto
  ultimately have "Max {v. Some v \<in> set col} \<in> {v. Some v \<in> set col}"
    by (rule Max_in)
  then show ?thesis by simp
qed

lemma distinct_valid_nth:
  "distinct (List.map_filter (\<lambda>v. v) col) \<Longrightarrow> i < j \<Longrightarrow> j < length col \<Longrightarrow>
   col ! i = Some a \<Longrightarrow> col ! j = Some b \<Longrightarrow> a \<noteq> b"
proof (induction col arbitrary: i j)
  case Nil
  then show ?case by simp
next
  case (Cons c col)
  obtain j' where j: "j = Suc j'" using Cons.prems(2) by (cases j) auto
  show ?case
  proof (cases i)
    case 0
    then have c: "c = Some a" using Cons.prems by simp
    have "col ! j' = Some b" "j' < length col" using Cons.prems j by simp_all
    then have "Some b \<in> set col" by (metis nth_mem)
    then have "b \<in> set (List.map_filter (\<lambda>v. v) col)" by (simp add: set_map_filter_id)
    then show ?thesis using Cons.prems(1) c by (auto simp: List.map_filter_simps)
  next
    case (Suc i')
    have "distinct (List.map_filter (\<lambda>v. v) col)"
      using Cons.prems(1) by (cases c) (simp_all add: List.map_filter_simps)
    then show ?thesis
      using Cons.IH [of i' j'] Cons.prems Suc j by simp
  qed
qed

lemma Max_valid_eq: "Max (set (List.map_filter (\<lambda>v. v) col)) = Max {v. Some v \<in> set col}"
  by (simp add: set_map_filter_id)

lemma repair_exact_all_blank_nth:
  "\<forall>v \<in> set col. v = None \<Longrightarrow> i < length col \<Longrightarrow> repair_exact col ! i = int i + 1"
  by (simp add: repair_exact_all_blank del: upt_Suc)

lemma repair_exact_blank_above:
  assumes "i < length col" "col ! i = None" "Some v \<in> set col"
  shows "py_int v < repair_exact col ! i"
proof -
  have "py_int v \<le> py_int (Max {v. Some v \<in> set col})"
    using assms(3) by (intro py_int_mono valid_le_Max)
  moreover have "0 < blanks_upto col i"
    using assms(1,2) by (rule blanks_upto_pos)
  ultimately show ?thesis
    using repair_exact_nth [OF assms(3) assms(1)] assms(2) by simp
qed

lemma repair_exact_blank_increasing:
  assumes "j < i" "i < length col" "col ! j = None" "col ! i = None"
  shows "repair_exact col ! j < repair_exact col ! i"
proof (cases "\<forall>v \<in> set col. v = None")
  case True
  then show ?thesis
    using assms by (simp add: repair_exact_all_blank_nth)
next
  case False
  then obtain w where w: "Some w \<in> set col" by (metis not_None_eq)
  have "blanks_upto col j < blanks_upto col i"
    using assms(1,2,4) by (rule blanks_upto_less)
  then show ?thesis
    using repair_exact_nth [OF w, of i] repair_exact_nth [OF w, of j] assms by simp
qed

lemma repair_exact_nth_neq:
  assumes d: "distinct (List.map_filter (\<lambda>v. v) col)"
    and z: "\<forall>v. Some v \<in> set col \<longrightarrow> v \<in> \<int>"
    and ij: "i < j" "j < length col"
  shows "repair_exact col ! i \<noteq> repair_exact col ! j"
proof (cases "col ! i")
  case None
  note ni = this
  show ?thesis
  proof (cases "col ! j")
    case None
    then show ?thesis
      using repair_exact_blank_increasing [of i j col] ni ij by simp
  next
    case (Some b)
    then have "Some b \<in> set col" using ij by (metis nth_mem)
    then show ?thesis
      using repair_exact_blank_above [of i col b] repair_exact_nth [of b col j] ni Some ij by simp
  qed
next
  case (Some a)
  then have a: "Some a \<in> set col" using ij by (metis nth_mem less_trans)
  show ?thesis
  proof (cases "col ! j")
    case None
    then show ?thesis
      using repair_exact_blank_above [of j col a] repair_exact_nth [of a col i] a Some ij by simp
  next
    case (Some b)
    then have b: "Some b \<in> set col" using ij by (metis nth_mem)
    have "a \<noteq> b"
      using distinct_valid_nth [OF d ij(1) ij(2) \<open>col ! i = Some a\<close> Some] .
    moreover have "rat_of_int (py_int a) = a" "rat_of_int (py_int b) = b"
      using a b z by (simp_all add: py_int_Ints)
    ultimately have "py_int a \<noteq> py_int b" by metis
    then show ?thesis
      using repair_exact_nth [of a col i] repair_exact_nth [of a col j] a Some \<open>col ! i = Some a\<close> ij
      by simp
  qed
qed

lemma repair_exact_distinct:
  assumes "distinct (List.map_filter (\<lambda>v. v) col)"
    and "\<forall>v. Some v \<in> set col \<longrightarrow> v \<in> \<int>"
  shows "distinct (repair_exact col)"
proof -
  have "repair_exact col ! i \<noteq> repair_exact col ! j"
    if "i < length col" "j < length col" "i \<noteq> j" for i j
  proof (cases "i < j")
    case True
    then show ?thesis using repair_exact_nth_neq [OF assms True] that by simp
  next
    case False
    then have "j < i" using that by simp
    then show ?thesis using repair_exact_nth_neq [OF assms \<open>j < i\<close>] that by metis
  qed
  then show ?thesis
    by (simp add: distinct_conv_nth length_repair_exact)
qed

lemma py_int_pos: "v \<in> \<int> \<Longrightarrow> 0 < v \<Longrightarrow> 0 < py_int v"
proof -
  assume "v \<in> \<int>" "0 < v"
  then have "0 < rat_of_int (py_int v)" by (simp add: py_int_Ints)
  then show ?thesis by simp
qed

lemma repair_exact_positive:
  assumes "\<forall>v. Some v \<in> set col \<longrightarrow> v \<in> \<int> \<and> 0 < v" and "i < length col"
  shows "0 < repair_exact col ! i"
proof (cases "\<forall>v \<in> set col. v = None")
  case True
  then show ?thesis using assms(2) by (simp add: repair_exact_all_blank_nth)
next
  case False
  then obtain w where w: "Some w \<in> set col" by (metis not_None_eq)
  have "0 < py_int (Max {v. Some v \<in> set col})"
    using Max_valid_in [OF w] assms(1) by (simp add: py_int_pos)
  moreover have "0 < py_int v" if "col ! i = Some v" for v
    using that assms by (metis nth_mem py_int_pos)
  ultimately show ?thesis
    using repair_exact_nth [OF w assms(2)] by (simp split: option.split)
qed

lemma length_fill_blank: "length (fill_blank m col) = length col"
  by (induction m col rule: fill_blank.induct) simp_all

lemma length_to_numeric_col: "length (to_numeric_col cells) = length cells"
  by (simp add: to_numeric_col_def)

lemma length_repair_ids: "length (repair_ids cells) = length cells"
  by (cases "List.map_filter (\<lambda>v. v) (to_numeric_col cells)")
     (simp_all add: repair_ids_def Let_def length_fill_blank length_to_numeric_col del: upt_Suc)

lemma length_load_records: "length (load_records ws) = length ws"
  by (simp add: load_records_def length_repair_ids)

lemma map_ID_load_records: "map ID (load_records ws) = repair_ids (map ID ws)"
proof -
  have "length (repair_ids (map ID ws)) = length ws"
    by (simp add: length_repair_ids)
  then have "map (\<lambda>p. ID (set_ID (fst p) (snd p))) (zip ws (repair_ids (map ID ws)))
           = repair_ids (map ID ws)"
    by (simp add: set_ID_def comp_def)
  then show ?thesis
    by (simp add: load_records_def case_prod_unfold comp_def)
qed

lemma in_int64_wrap: "in_int64 (wrap_int64 i)"
proof -
  have "0 \<le> (i + 2 ^ 63) mod 2 ^ 64" "(i + 2 ^ 63) mod 2 ^ 64 < (2 ^ 64 :: int)"
    by simp_all
  then show ?thesis
    by (simp add: in_int64_def wrap_int64_def)
qed

lemma wrap_int64_id: "in_int64 i \<Longrightarrow> wrap_int64 i = i"
  by (simp add: in_int64_def wrap_int64_def mod_pos_pos_trivial)

lemma in_int64_float_to_int64: "in_int64 (float_to_int64 x)"
  by (simp add: in_int64_def float_to_int64_def Let_def)

lemma float_to_int64_id: "in_int64 (py_int x) \<Longrightarrow> float_to_int64 x = py_int x"
  by (simp add: in_int64_def float_to_int64_def Let_def)

lemma in_int64_astype: "in_int64 (astype_int cells x)"
  by (simp add: astype_int_def in_int64_wrap in_int64_float_to_int64)

lemma astype_int_id: "in_int64 (py_int x) \<Longrightarrow> astype_int cells x = py_int x"
  by (simp add: astype_int_def wrap_int64_id float_to_int64_id)

lemma in_int64_repair_ids: "i \<in> set (repair_ids cells) \<Longrightarrow> in_int64 i"
  by (cases "List.map_filter (\<lambda>v. v) (to_numeric_col cells)")
     (auto simp: repair_ids_def Let_def in_int64_wrap in_int64_astype simp del: upt_Suc)

lemma in_int64_load_records: "r \<in> set (load_records ws) \<Longrightarrow> in_int64 (ID r)"
proof -
  assume "r \<in> set (load_records ws)"
  then have "ID r \<in> set (map ID (load_records ws))" by simp
  then show ?thesis
    unfolding map_ID_load_records by (rule in_int64_repair_ids)
qed

lemma fill_blank_all_Some: "fill_blank m (map Some xs) = xs"
  by (induction xs) simp_all

lemma repair_ids_int_column:
  assumes "\<forall>i \<in> set ids. in_int64 i"
  shows "repair_ids (map IntC ids) = ids"
proof (cases ids)
  case Nil
  then show ?thesis
    by (simp add: repair_ids_def to_numeric_col_def List.map_filter_simps)
next
  case (Cons i js)
  have ic: "list_all is_int_cell (map IntC ids)"
    by (simp add: list_all_iff)
  have col: "to_numeric_col (map IntC ids) = map Some (map of_int ids)"
    using ic by (simp add: to_numeric_col_def comp_def)
  have mf: "List.map_filter (\<lambda>v. v) (map Some (map rat_of_int ids)) = map of_int ids"
    by (rule map_filter_all_Some)
  have a: "map (astype_int (map IntC ids)) (map rat_of_int ids) = ids"
    using assms ic by (simp add: astype_int_def py_int_of_int wrap_int64_id map_idI comp_def)
  have mf': "List.map_filter (\<lambda>v. v) (to_numeric_col (map IntC ids))
               = rat_of_int i # map rat_of_int js"
    unfolding col mf using Cons by simp
  have "repair_ids (map IntC ids)
          = map (astype_int (map IntC ids))
              (fill_blank (py_int (fold max (map rat_of_int js) (rat_of_int i)))
                 (to_numeric_col (map IntC ids)))"
    by (simp only: repair_ids_def Let_def mf' list.case)
  also have "\<dots> = map (astype_int (map IntC ids)) (map rat_of_int ids)"
    by (simp only: col fill_blank_all_Some)
  also have "\<dots> = ids" by (rule a)
  finally show ?thesis .
qed

lemma load_records_save_all:
  assumes "\<forall>r \<in> set df. in_int64 (ID r)"
  shows "load_records (save_all df) = df"
proof -
  have col: "map ID (save_all df) = map IntC (map ID df)"
    by (simp add: save_all_def set_ID_def comp_def)
  have "repair_ids (map IntC (map ID df)) = map ID df"
    using assms by (intro repair_ids_int_column) simp
  then have "load_records (save_all df) = map (\<lambda>(r, i). set_ID r i) (zip (save_all df) (map ID df))"
    unfolding load_records_def col by simp
  also have "\<dots> = df"
    by (induction df) (simp_all add: save_all_def set_ID_set_ID set_ID_same)
  finally show ?thesis .
qed

lemma load_records_save_all_load:
  "load_records (save_all (load_records ws)) = load_records ws"
  by (rule load_records_save_all) (simp add: in_int64_load_records)


lemma float64_of_int_id: "\<bar>i\<bar> < 2 ^ 53 \<Longrightarrow> float64_of_int i = i"
  by (simp add: float64_of_int_def)

lemma abs_py_int_le: "\<bar>rat_of_int (py_int x)\<bar> \<le> \<bar>x\<bar>"
proof (cases "0 \<le> x")
  case True
  then have "0 \<le> \<lfloor>x\<rfloor>" by simp
  then show ?thesis using True by (simp add: py_int_def)
next
  case False
  then have "x \<le> of_int \<lceil>x\<rceil>" "\<lceil>x\<rceil> \<le> 0" by (simp_all add: ceiling_le_zero)
  then show ?thesis using False by (simp add: py_int_def)
qed

lemma in_int64_py_int:
  assumes "\<bar>x\<bar> < 2 ^ 53"
  shows "in_int64 (py_int x)"
proof -
  have "\<bar>rat_of_int (py_int x)\<bar> < rat_of_int (2 ^ 53)"
    using abs_py_int_le [of x] assms by simp
  then have "\<bar>py_int x\<bar> < 2 ^ 53"
    by (metis of_int_abs of_int_less_iff)
  then show ?thesis by (auto simp: in_int64_def abs_less_iff)
qed

lemma fill_blank_exact:
  "\<bar>m\<bar> + int (length col) < 2 ^ 53 \<Longrightarrow> fill_blank m col = fill_exact m col"
proof (induction m col rule: fill_blank.induct)
  case (1 max_id)
  then show ?case by simp
next
  case (2 max_id col)
  then have "\<bar>max_id + 1\<bar> < 2 ^ 53" "\<bar>max_id + 1\<bar> + int (length col) < 2 ^ 53"
    by simp_all
  then show ?case using 2 by (simp add: float64_of_int_id)
next
  case (3 max_id v col)
  then show ?case by simp
qed

lemma fill_exact_bound:
  assumes "x \<in> set (fill_exact m col)"
    and "\<bar>rat_of_int m\<bar> + of_nat (length col) \<le> b"
    and "\<forall>v. Some v \<in> set col \<longrightarrow> \<bar>v\<bar> \<le> b"
  shows "\<bar>x\<bar> \<le> b"
  using assms
proof (induction m col rule: fill_exact.induct)
  case (1 max_id)
  then show ?case by simp
next
  case (2 max_id col)
  have "\<bar>rat_of_int (max_id + 1)\<bar> \<le> \<bar>rat_of_int max_id\<bar> + 1"
    by simp
  then have "\<bar>rat_of_int (max_id + 1)\<bar> + of_nat (length col) \<le> b"
    using 2(3) by simp
  moreover have "0 \<le> rat_of_nat (length col)" by simp
  ultimately have "\<bar>rat_of_int (max_id + 1)\<bar> \<le> b"
    by linarith
  moreover note \<open>\<bar>rat_of_int (max_id + 1)\<bar> + of_nat (length col) \<le> b\<close>
  ultimately show ?case using 2 by auto
next
  case (3 max_id v col)
  then show ?case by auto
qed

lemma to_numeric_col_exact:
  assumes "id_bound cells"
  shows "to_numeric_col cells = map to_numeric cells"
proof -
  have "to_float64 c = to_numeric c" if "c \<in> set cells" for c
  proof (cases c)
    case (IntC i)
    have "\<bar>rat_of_int i\<bar> + of_nat (length cells) < 2 ^ 53"
      using assms that IntC by (auto simp: id_bound_def list_all_iff)
    moreover have "0 \<le> rat_of_nat (length cells)" by simp
    ultimately have "\<bar>rat_of_int i\<bar> < 2 ^ 53" by linarith
    then have "rat_of_int \<bar>i\<bar> < rat_of_int (2 ^ 53)" by simp
    then have "\<bar>i\<bar> < 2 ^ 53"
      by (simp only: of_int_less_iff)
    then show ?thesis using IntC by (simp add: float64_of_int_id)
  qed simp_all
  then show ?thesis
    by (simp add: to_numeric_col_def)
qed

lemma repair_ids_exact:
  assumes "id_bound cells"
  shows "repair_ids cells = repair_exact (map to_numeric cells)"
proof (cases "List.map_filter (\<lambda>v. v) (map to_numeric cells)")
  case Nil
  have "wrap_int64 (int n) = int n" if "n \<in> set [1..<length cells + 1]" for n
  proof -
    have "int n \<le> int (length cells)" using that by auto
    moreover have "int (length cells) < 2 ^ 53" using assms by (simp add: id_bound_def)
    ultimately have "in_int64 (int n)" by (auto simp: in_int64_def)
    then show ?thesis by (rule wrap_int64_id)
  qed
  then have "map (\<lambda>n. wrap_int64 (int n)) [1..<length cells + 1] = map int [1..<length cells + 1]"
    by (intro map_cong refl) simp
  then show ?thesis
    using Nil by (simp add: repair_ids_def repair_exact_def Let_def to_numeric_col_exact [OF assms]
        del: upt_Suc)
next
  case (Cons v vs)
  let ?col = "map to_numeric cells"
  let ?b = "2 ^ 53 :: rat"
  have vb: "\<bar>w\<bar> + of_nat (length cells) < ?b" if "Some w \<in> set ?col" for w
    using that assms by (auto simp: id_bound_def list_all_iff split: option.splits)
  have "fold max vs v = Max (set (v # vs))"
    by (simp only: Max.set_eq_fold)
  then have "fold max vs v \<in> set (v # vs)"
    by (metis List.finite_set Max_in list.distinct(1) set_empty)
  then have "Some (fold max vs v) \<in> set ?col"
    using Cons set_map_filter_id [of ?col] by auto
  then have mb: "\<bar>fold max vs v\<bar> + of_nat (length cells) < ?b"
    by (rule vb)
  let ?m = "py_int (fold max vs v)"
  have mr: "\<bar>rat_of_int ?m\<bar> + of_nat (length cells) < ?b"
    using abs_py_int_le [of "fold max vs v"] mb by simp
  then have "rat_of_int (\<bar>?m\<bar> + int (length cells)) < rat_of_int (2 ^ 53)"
    by simp
  then have mi: "\<bar>?m\<bar> + int (length ?col) < 2 ^ 53"
    by (simp only: of_int_less_iff length_map)
  have fe: "fill_blank ?m ?col = fill_exact ?m ?col"
    using mi by (rule fill_blank_exact)
  have "astype_int cells x = py_int x" if "x \<in> set (fill_exact ?m ?col)" for x
  proof -
    have "\<bar>x\<bar> \<le> ?b - 1"
    proof (rule fill_exact_bound [OF that])
      show "\<bar>rat_of_int ?m\<bar> + of_nat (length ?col) \<le> ?b - 1"
      proof -
        have "rat_of_int (\<bar>?m\<bar> + int (length ?col)) \<le> rat_of_int (2 ^ 53 - 1)"
          using mi by (simp only: of_int_le_iff)
        then show ?thesis by simp
      qed
      show "\<forall>w. Some w \<in> set ?col \<longrightarrow> \<bar>w\<bar> \<le> ?b - 1"
      proof (intro allI impI)
        fix w assume w: "Some w \<in> set ?col"
        then have "cells \<noteq> []" by auto
        then have "1 \<le> rat_of_nat (length cells)"
          by (cases cells) simp_all
        then show "\<bar>w\<bar> \<le> ?b - 1" using vb [OF w] by simp
      qed
    qed
    then have "\<bar>x\<bar> < 2 ^ 53" by simp
    then show ?thesis by (intro astype_int_id in_int64_py_int)
  qed
  then have "map (astype_int cells) (fill_exact ?m ?col) = map py_int (fill_exact ?m ?col)"
    by (intro map_cong refl) simp
  then show ?thesis
    using Cons by (simp add: repair_ids_def repair_exact_def Let_def to_numeric_col_exact [OF assms] fe)
qed

lemma load_records_nth:
  "k < length ws \<Longrightarrow> load_records ws ! k = set_ID (ws ! k) (repair_ids (map ID ws) ! k)"
  by (simp add: load_records_def length_repair_ids)

text \<open>
  Beyond the bound the dtypes of pandas alter IDs: an integer column wraps at
  \<open>2 ^ 63\<close>, and beside a blank the ID \<open>2 ^ 53 + 1\<close> is rounded to \<open>2 ^ 53\<close>, which the
  blank row then receives as well.
\<close>

lemma repair_ids_int64_edge: "repair_ids [IntC (2 ^ 63)] = [- (2 ^ 63)]"
  by (simp add: repair_ids_def Let_def to_numeric_col_def List.map_filter_simps astype_int_def
        wrap_int64_def py_int_def)

lemma bitlen_edge: "bitlen (2 ^ 53 + 1) = 54"
proof -
  have "bitlen (2 ^ 53 + 1) \<le> 54" "\<not> bitlen (2 ^ 53 + 1) \<le> 53"
    by (simp_all add: bitlen_le_iff_power)
  then show ?thesis by linarith
qed

lemma float64_edge: "float64_of_int (2 ^ 53 + 1) = 2 ^ 53"
proof -
  have "float64_of_int (2 ^ 53 + 1)
          = round_half_even (rat_of_int (2 ^ 53 + 1) / rat_of_int (2 ^ nat (bitlen (2 ^ 53 + 1) - 53)))
            * 2 ^ nat (bitlen (2 ^ 53 + 1) - 53)"
    by (simp add: float64_of_int_def Let_def)
  also have "\<dots> = round_half_even (rat_of_int (2 ^ 53 + 1) / 2) * 2"
    by (simp only: bitlen_edge) simp
  also have "\<dots> = 2 ^ 53"
  proof -
    have "\<lfloor>(9007199254740993 :: rat) / 2\<rfloor> = 4503599627370496"
      by (rule floor_unique) simp_all
    then show ?thesis
      by (simp add: round_half_even_def Let_def)
  qed
  finally show ?thesis .
qed

lemma repair_ids_float64_edge: "repair_ids [IntC (2 ^ 53 + 1), Txt []] = [2 ^ 53, 2 ^ 53]"
  using float64_edge
  by (simp add: repair_ids_def Let_def to_numeric_col_def List.map_filter_simps astype_int_def
        float_to_int64_def py_int_def)

text \<open>
  Claim C2, as amended. Let the ID column be shorter than \<open>2 ^ 53\<close> and let each of its
  numbers, taken with the length of the column, stay below \<open>2 ^ 53\<close> in magnitude.
  After the ID repair of \<^verbatim>\<open>load_records\<close> every row has an integer ID. If every row's
  ID is blank the rows receive 1..N in row order. Otherwise a row whose ID is valid keeps
  it, truncated to an integer, and the k-th blank row in row order receives
  \<open>maxId + k\<close>, where \<open>maxId\<close> is the largest valid ID of the column, truncated. An
  assigned ID is greater than every valid ID already present and than every ID assigned
  to an earlier blank row. The IDs are unique and positive when the valid IDs of the
  column are pairwise distinct positive integers; the repair removes no duplicate and
  changes no valid ID.
\<close>

theorem load_records_id_repair:
  assumes "id_bound (map ID ws)"
    and "col = map (\<lambda>r. to_numeric (ID r)) ws" and "ids = map ID (load_records ws)"
  shows "length ids = length ws
    \<and> ((\<forall>v \<in> set col. v = None) \<longrightarrow> ids = map int [1..<length ws + 1])
    \<and> ((\<exists>w. Some w \<in> set col) \<longrightarrow>
         (\<forall>i < length ws. ids ! i =
            (case col ! i of Some v \<Rightarrow> py_int v
             | None \<Rightarrow> py_int (Max (set (List.map_filter (\<lambda>v. v) col))) + int (blanks_upto col i))))
    \<and> (\<forall>i < length ws. col ! i = None \<longrightarrow>
          (\<forall>v. Some v \<in> set col \<longrightarrow> py_int v < ids ! i)
          \<and> (\<forall>j < i. col ! j = None \<longrightarrow> ids ! j < ids ! i))
    \<and> (distinct (List.map_filter (\<lambda>v. v) col) \<and> (\<forall>v. Some v \<in> set col \<longrightarrow> v \<in> \<int> \<and> 0 < v)
         \<longrightarrow> distinct ids \<and> (\<forall>k \<in> set ids. 0 < k))"
proof -
  have e: "map to_numeric (map ID ws) = col"
    using assms(2) by (simp add: comp_def)
  have "ids = repair_exact (map to_numeric (map ID ws))"
    using assms(1,3) by (simp only: map_ID_load_records repair_ids_exact)
  then have ids: "ids = repair_exact col"
    unfolding e .
  have len: "length col = length ws"
    using assms(2) by simp
  have c1: "length ids = length ws"
    by (simp add: ids len length_repair_exact)
  have c2: "(\<forall>v \<in> set col. v = None) \<longrightarrow> ids = map int [1..<length ws + 1]"
    using repair_exact_all_blank [of col] unfolding ids len by blast
  have c3: "(\<exists>w. Some w \<in> set col) \<longrightarrow>
         (\<forall>i < length ws. ids ! i =
            (case col ! i of Some v \<Rightarrow> py_int v
             | None \<Rightarrow> py_int (Max (set (List.map_filter (\<lambda>v. v) col))) + int (blanks_upto col i)))"
    unfolding ids Max_valid_eq using repair_exact_nth [of _ col] len by metis
  have c4: "\<forall>i < length ws. col ! i = None \<longrightarrow>
          (\<forall>v. Some v \<in> set col \<longrightarrow> py_int v < ids ! i)
          \<and> (\<forall>j < i. col ! j = None \<longrightarrow> ids ! j < ids ! i)"
    unfolding ids using repair_exact_blank_above [of _ col] repair_exact_blank_increasing [of _ _ col] len
    by metis
  have c5: "distinct ids \<and> (\<forall>k \<in> set ids. 0 < k)"
    if h: "distinct (List.map_filter (\<lambda>v. v) col)" "\<forall>v. Some v \<in> set col \<longrightarrow> v \<in> \<int> \<and> 0 < v"
  proof
    show "distinct ids"
      unfolding ids using h by (intro repair_exact_distinct) auto
    show "\<forall>k \<in> set ids. 0 < k"
      unfolding ids using repair_exact_positive [OF h(2)]
      by (metis in_set_conv_nth length_repair_exact)
  qed
  show ?thesis
    using c1 c2 c3 c4 c5 by blast
qed

lemma sample_bound: "id_bound (map ID sample_sheet)"
  by (simp add: id_bound_def sample_sheet_def sample_row_def)

lemma sample_repaired: "repair_ids (map ID sample_sheet) = [6, 5, 7, 2]"
  unfolding repair_ids_exact [OF sample_bound]
  by (simp add: sample_sheet_def sample_row_def repair_exact_def List.map_filter_simps py_int_def)

lemma sample_sheet_loaded: "map ID (load_records sample_sheet) = [6, 5, 7, 2]"
  by (simp add: map_ID_load_records sample_repaired)

lemma sample_loaded:
  "load_records sample_sheet =
     [sample_row 6 ''2025-10-03'' ''Mei'', sample_row 5 ''2025-09-21'' ''Ann'',
      sample_row 7 ''2025-10-03'' ''Ann'', sample_row 2 ''2025-10-03'' ''Mei'']"
  unfolding load_records_def sample_repaired
  by (simp add: sample_sheet_def sample_row_def set_ID_def)

lemma sample_loaded_ids: "ID ` set (load_records sample_sheet) = {6, 5, 7, 2}"
  by (simp add: sample_loaded sample_row_def)

theorem load_records_id_repair_witness:
  "id_bound (map ID sample_sheet)
   \<and> map ID (load_records sample_sheet) = [6, 5, 7, 2]
   \<and> map (\<lambda>r. to_numeric (ID r)) sample_sheet = [None, Some 5, None, Some 2]
   \<and> distinct (map ID (load_records sample_sheet))
   \<and> length (map ID (load_records sample_sheet)) = length sample_sheet"
proof -
  have col: "[None, Some 5, None, Some 2] = map (\<lambda>r. to_numeric (ID r)) sample_sheet"
    by (simp add: sample_sheet_def sample_row_def)
  have ids: "[6, 5, 7, 2] = map ID (load_records sample_sheet)"
    by (simp add: sample_sheet_loaded)
  have h: "distinct (List.map_filter (\<lambda>v. v) [None, Some 5, None, Some (2::rat)])
           \<and> (\<forall>v. Some v \<in> set [None, Some 5, None, Some (2::rat)] \<longrightarrow> v \<in> \<int> \<and> 0 < v)"
    by (auto simp: List.map_filter_simps)
  show ?thesis
    using load_records_id_repair [OF sample_bound col ids] h col ids sample_bound by simp
qed

text \<open>
  Claim C2 as stated fails: two rows that carry the same valid ID keep it, so the IDs
  are not unique after the repair.
\<close>

theorem load_records_duplicate_ids_counterexample:
  "\<not> distinct (map ID (load_records
        [sample_row (IntC 3) ''2025-10-03'' ''Mei'', sample_row (IntC 3) ''2025-10-04'' ''Ann'']))"
proof -
  have "repair_ids (map IntC [3, 3]) = [3, 3]"
    by (rule repair_ids_int_column) (simp add: in_int64_def)
  then show ?thesis
    by (simp add: map_ID_load_records sample_row_def)
qed

lemma save_all_load_records_int:
  assumes "\<forall>r \<in> set ws. \<exists>i. ID r = IntC i \<and> in_int64 i"
  shows "save_all (load_records ws) = ws"
proof -
  define f where "f = (\<lambda>r::cell record_row. case ID r of IntC i \<Rightarrow> i | _ \<Rightarrow> 0)"
  have f: "IntC (f r) = ID r" "in_int64 (f r)" if "r \<in> set ws" for r
    using assms that by (auto simp: f_def)
  have col: "map ID ws = map IntC (map f ws)"
    using f(1) by (simp add: comp_def)
  have "repair_ids (map IntC (map f ws)) = map f ws"
    using f(2) by (intro repair_ids_int_column) simp
  then have "load_records ws = map (\<lambda>(r, i). set_ID r i) (zip ws (map f ws))"
    unfolding load_records_def col by simp
  also have "\<dots> = map (\<lambda>r. set_ID r (f r)) ws"
    by (simp add: zip_map2 zip_same_conv_map comp_def)
  finally have "save_all (load_records ws) = map (\<lambda>r. set_ID r (IntC (f r))) ws"
    by (simp add: save_all_def set_ID_def comp_def)
  also have "\<dots> = map (\<lambda>r. r) ws"
    by (rule map_cong) (simp_all add: f set_ID_same)
  finally show ?thesis by simp
qed

text \<open>
  Claim C3, as amended. The ID repair is idempotent. On a worksheet whose ID column
  holds only integers of the \<^verbatim>\<open>int64\<close> range, from \<open>- 2 ^ 63\<close> up to \<open>2 ^ 63 - 1\<close>, it
  changes no ID: the table read, written back, is the worksheet itself. Reading again
  what a load produced gives the same table.
\<close>

theorem load_records_idempotent:
  "((\<forall>r \<in> set ws. \<exists>i. ID r = IntC i \<and> - (2 ^ 63) \<le> i \<and> i < 2 ^ 63) \<longrightarrow>
      save_all (load_records ws) = ws
      \<and> map (\<lambda>r. IntC (ID r)) (load_records ws) = map ID ws)
   \<and> load_records (save_all (load_records ws)) = load_records ws"
proof (intro conjI impI)
  assume "\<forall>r \<in> set ws. \<exists>i. ID r = IntC i \<and> - (2 ^ 63) \<le> i \<and> i < 2 ^ 63"
  then have "\<forall>r \<in> set ws. \<exists>i. ID r = IntC i \<and> in_int64 i"
    by (simp add: in_int64_def)
  then show s: "save_all (load_records ws) = ws"
    by (rule save_all_load_records_int)
  have "map ID (save_all (load_records ws)) = map (\<lambda>r. IntC (ID r)) (load_records ws)"
    by (simp add: save_all_def set_ID_def comp_def)
  then show "map (\<lambda>r. IntC (ID r)) (load_records ws) = map ID ws"
    by (simp add: s)
next
  show "load_records (save_all (load_records ws)) = load_records ws"
    by (rule load_records_save_all_load)
qed

theorem load_records_idempotent_witness:
  "save_all (load_records [sample_row (IntC 4) ''2025-10-03'' ''Mei'', sample_row (IntC 1) ''2025-10-04'' ''Ann''])
     = [sample_row (IntC 4) ''2025-10-03'' ''Mei'', sample_row (IntC 1) ''2025-10-04'' ''Ann'']
   \<and> map (\<lambda>r. IntC (ID r))
        (load_records [sample_row (IntC 4) ''2025-10-03'' ''Mei'', sample_row (IntC 1) ''2025-10-04'' ''Ann''])
       = [IntC 4, IntC 1]"
proof -
  let ?ws = "[sample_row (IntC 4) ''2025-10-03'' ''Mei'', sample_row (IntC 1) ''2025-10-04'' ''Ann'']"
  have h: "\<forall>r \<in> set ?ws. \<exists>i. ID r = IntC i \<and> - (2 ^ 63) \<le> i \<and> i < 2 ^ 63"
    by (simp add: sample_row_def)
  have "save_all (load_records ?ws) = ?ws
        \<and> map (\<lambda>r. IntC (ID r)) (load_records ?ws) = map ID ?ws"
    using load_records_idempotent [of ?ws] h by blast
  then show ?thesis by (simp add: sample_row_def)
qed

text \<open>
  Claim C3 as stated fails outside the \<^verbatim>\<open>int64\<close> range: a column whose only ID is the
  integer \<open>2 ^ 63\<close> is changed by a load, the cast wraps it to \<open>- 2 ^ 63\<close>.
\<close>

theorem load_records_int64_wrap_counterexample:
  "map ID (load_records [sample_row (IntC (2 ^ 63)) ''2025-10-03'' ''Mei'']) = [- (2 ^ 63)]"
  using repair_ids_int64_edge by (simp add: map_ID_load_records sample_row_def)

section \<open>Creating, updating and deleting records\<close>

lemma sheet_record_ensure_staff [simp]:
  "sheet_record (ensure_staff_exists name st) = sheet_record st"
  by (simp add: ensure_staff_exists_def Let_def)

lemma save_all_append: "save_all (xs @ ys) = save_all xs @ save_all ys"
  by (simp add: save_all_def)

lemma find_index_Nil:
  "filter (\<lambda>i. ID (df ! i) = k) [0..<length df] = [] \<longleftrightarrow> k \<notin> ID ` set df"
proof -
  have "filter (\<lambda>i. ID (df ! i) = k) [0..<length df] = [] \<longleftrightarrow> (\<forall>i < length df. ID (df ! i) \<noteq> k)"
    by (auto simp: filter_empty_conv)
  also have "\<dots> \<longleftrightarrow> (\<forall>r \<in> set df. ID r \<noteq> k)"
    by (simp add: all_set_conv_all_nth)
  also have "\<dots> \<longleftrightarrow> k \<notin> ID ` set df"
    by auto
  finally show ?thesis .
qed

lemma find_index_Cons:
  assumes "filter (\<lambda>i. ID (df ! i) = k) [0..<length df] = idx # rest"
  shows "idx < length df \<and> ID (df ! idx) = k"
proof -
  have "idx \<in> set (filter (\<lambda>i. ID (df ! i) = k) [0..<length df])"
    using assms by simp
  then show ?thesis by simp
qed

lemma Max_ID_ge: "r \<in> set df \<Longrightarrow> ID r \<le> Max (set (map ID df))"
  by simp

lemma page_add_record_saved:
  assumes "staff_name f \<noteq> []" and "client_name_in f \<noteq> []"
  shows "page_add_record st f =
           (Inr (ID (new_record (load_records (sheet_record st)) f)),
            (ensure_staff_exists (staff_name f) st)
              \<lparr>sheet_record := save_all (load_records (sheet_record st)
                                           @ [new_record (load_records (sheet_record st)) f])\<rparr>)"
  using assms by (simp add: page_add_record_def new_record_def Let_def)

text \<open>
  Claim C4. When the names of the form are not empty, \<^verbatim>\<open>page_add_record\<close> saves the new
  record under the ID \<open>max + 1\<close> of the IDs of the table it has loaded, or 1 when that
  table is empty. The ID is greater than every ID of the loaded table, and it is the ID
  of the last row of the table written; read back, that table has the loaded IDs
  followed by the new one, the new one being an \<^verbatim>\<open>int64\<close>.
\<close>

theorem page_add_record_new_id:
  assumes "staff_name f \<noteq> []" and "client_name_in f \<noteq> []"
  shows "\<exists>n st'. page_add_record st f = (Inr n, st')
     \<and> n = (if load_records (sheet_record st) = [] then 1
            else Max (ID ` set (load_records (sheet_record st))) + 1)
     \<and> (\<forall>r \<in> set (load_records (sheet_record st)). ID r < n)
     \<and> map ID (sheet_record st')
         = map (\<lambda>r. IntC (ID r)) (load_records (sheet_record st)) @ [IntC n]
     \<and> (n < 2 ^ 63 \<longrightarrow>
          map ID (load_records (sheet_record st')) = map ID (load_records (sheet_record st)) @ [n])"
proof -
  let ?df = "load_records (sheet_record st)"
  let ?n = "if ?df = [] then 1 else Max (ID ` set ?df) + 1"
  let ?st' = "(ensure_staff_exists (staff_name f) st)
                \<lparr>sheet_record := save_all (?df @ [new_record ?df f])\<rparr>"
  have n: "ID (new_record ?df f) = ?n"
    by (simp add: new_record_def)
  have lt: "\<forall>r \<in> set ?df. ID r < ?n"
  proof
    fix r assume r: "r \<in> set ?df"
    then have "ID r \<le> Max (ID ` set ?df)" by simp
    moreover have "?df \<noteq> []" using r by auto
    ultimately show "ID r < ?n" by simp
  qed
  have res: "page_add_record st f = (Inr ?n, ?st')"
    using page_add_record_saved [OF assms, of st] n by simp
  have w: "map ID (sheet_record ?st') = map (\<lambda>r. IntC (ID r)) ?df @ [IntC ?n]"
    using n by (simp add: save_all_def set_ID_def comp_def)
  have rl: "map ID (load_records (sheet_record ?st')) = map ID ?df @ [?n]" if "?n < 2 ^ 63"
  proof -
    have "in_int64 ?n"
    proof (cases "?df = []")
      case True
      then show ?thesis by (simp add: in_int64_def)
    next
      case False
      then obtain r where "r \<in> set ?df" by (cases ?df) auto
      then have "in_int64 (ID r)" "ID r < ?n"
        using lt by (simp_all add: in_int64_load_records)
      then show ?thesis using that by (auto simp: in_int64_def)
    qed
    then have "\<forall>r \<in> set (?df @ [new_record ?df f]). in_int64 (ID r)"
      using n by (auto simp: in_int64_load_records)
    then have "load_records (save_all (?df @ [new_record ?df f])) = ?df @ [new_record ?df f]"
      by (rule load_records_save_all)
    then show ?thesis using n by simp
  qed
  show ?thesis
    using res lt w rl by blast
qed

theorem page_add_record_new_id_witness:
  "staff_name sample_add_form \<noteq> [] \<and> client_name_in sample_add_form \<noteq> []
   \<and> fst (page_add_record sample_store sample_add_form) = Inr 8
   \<and> map ID (sheet_record (snd (page_add_record sample_store sample_add_form)))
       = [IntC 6, IntC 5, IntC 7, IntC 2, IntC 8]
   \<and> map ID (load_records (sheet_record (snd (page_add_record sample_store sample_add_form))))
       = [6, 5, 7, 2, 8]"
proof -
  have h: "staff_name sample_add_form \<noteq> []" "client_name_in sample_add_form \<noteq> []"
    by (simp_all add: sample_add_form_def)
  have l: "load_records (sheet_record sample_store) \<noteq> []"
    "map ID (load_records (sheet_record sample_store)) = [6, 5, 7, 2]"
    "map (\<lambda>r. IntC (ID r)) (load_records (sheet_record sample_store)) = [IntC 6, IntC 5, IntC 7, IntC 2]"
    "Max (ID ` set (load_records (sheet_record sample_store))) = 7"
    by (simp_all add: sample_store_def sample_loaded_ids) (simp_all add: sample_loaded sample_row_def)
  obtain n st' where r: "page_add_record sample_store sample_add_form = (Inr n, st')"
    "n = (if load_records (sheet_record sample_store) = [] then 1
          else Max (ID ` set (load_records (sheet_record sample_store))) + 1)"
    "map ID (sheet_record st')
       = map (\<lambda>r. IntC (ID r)) (load_records (sheet_record sample_store)) @ [IntC n]"
    "n < 2 ^ 63 \<longrightarrow>
       map ID (load_records (sheet_record st')) = map ID (load_records (sheet_record sample_store)) @ [n]"
    using page_add_record_new_id [OF h, of sample_store] by blast
  have "n = 8" using r(2) l by simp
  then show ?thesis using h r l by simp
qed

lemma page_summary_save_absent:
  "edit_id \<notin> ID ` set (load_records (sheet_record st)) \<Longrightarrow>
   page_summary_save st edit_id e = (Inl NotFoundError, st)"
  using find_index_Nil [of "load_records (sheet_record st)" edit_id]
  by (simp add: page_summary_save_def Let_def)

text \<open>
  Claim C7. When no row of the table reloaded under the save button has the ID chosen for
  the edit, \<^verbatim>\<open>page_summary\<close> reports that the record was not found and writes nothing:
  both worksheets are left as they were.
\<close>

theorem page_summary_save_not_found:
  assumes "edit_id \<notin> ID ` set (load_records (sheet_record st))"
  shows "page_summary_save st edit_id e = (Inl NotFoundError, st)"
  using assms by (rule page_summary_save_absent)

theorem page_summary_save_not_found_witness:
  "9 \<notin> ID ` set (load_records (sheet_record sample_store))
   \<and> page_summary_save sample_store 9 sample_edit_form = (Inl NotFoundError, sample_store)"
proof -
  have h: "9 \<notin> ID ` set (load_records (sheet_record sample_store))"
    by (simp add: sample_store_def sample_loaded_ids)
  show ?thesis
    using h page_summary_save_not_found [OF h, of sample_edit_form] by simp
qed





lemma derived_fields_ok_set_ID [simp]: "derived_fields_ok (set_ID r i) = derived_fields_ok r"
  by (simp add: derived_fields_ok_def set_ID_def)

lemma derived_ok_load:
  "(\<forall>r \<in> set (load_records ws). derived_fields_ok r) \<longleftrightarrow> (\<forall>r \<in> set ws. derived_fields_ok r)"
  by (simp add: all_set_conv_all_nth length_load_records load_records_nth)

lemma derived_ok_save:
  "(\<forall>r \<in> set (save_all df). derived_fields_ok r) \<longleftrightarrow> (\<forall>r \<in> set df. derived_fields_ok r)"
  by (simp add: save_all_def)

lemma derived_ok_new_record: "derived_fields_ok (new_record df f)"
  by (simp add: derived_fields_ok_def new_record_def)

lemma derived_ok_edited_record: "derived_fields_ok (edited_record r e)"
  by (simp add: derived_fields_ok_def edited_record_def)

lemma page_summary_save_found:
  assumes "edit_id \<in> ID ` set (load_records (sheet_record st))"
  shows "\<exists>idx < length (load_records (sheet_record st)).
           ID (load_records (sheet_record st) ! idx) = edit_id
           \<and> page_summary_save st edit_id e =
               (Inr edit_id,
                (ensure_staff_exists (edit_staff e) st)
                  \<lparr>sheet_record := save_all ((load_records (sheet_record st))
                      [idx := edited_record (load_records (sheet_record st) ! idx) e])\<rparr>)"
proof -
  let ?df = "load_records (sheet_record st)"
  obtain idx rest where f: "filter (\<lambda>i. ID (?df ! i) = edit_id) [0..<length ?df] = idx # rest"
    using assms find_index_Nil [of ?df edit_id]
    by (cases "filter (\<lambda>i. ID (?df ! i) = edit_id) [0..<length ?df]") auto
  have "idx < length ?df \<and> ID (?df ! idx) = edit_id"
    using f by (rule find_index_Cons)
  moreover have "page_summary_save st edit_id e =
               (Inr edit_id,
                (ensure_staff_exists (edit_staff e) st)
                  \<lparr>sheet_record := save_all (?df[idx := edited_record (?df ! idx) e])\<rparr>)"
    using f by (simp add: page_summary_save_def Let_def edited_record_def)
  ultimately show ?thesis by blast
qed

text \<open>
  Claim C1. The record that a create appends and the record that an update leaves at the
  edited row are stored with \<open>total_income = round(service_income + tip, 2)\<close> and
  \<open>hours = round(duration / 60, 2)\<close>, for the duration, income and tip of the form.
  The other rows are written back as they were loaded, so when every row of the
  worksheet satisfies both equations before the write, every row does after it.
\<close>

theorem derived_fields_on_write:
  "(staff_name f \<noteq> [] \<and> client_name_in f \<noteq> [] \<longrightarrow>
      (\<exists>r. sheet_record (snd (page_add_record st f))
              = save_all (load_records (sheet_record st)) @ [r]
           \<and> duration r = duration_in f \<and> service_income r = service_income_in f
           \<and> tip r = tip_in f
           \<and> total_income r = py_round (service_income r + tip r) 2
           \<and> hours r = py_round (of_int (duration r) / 60) 2))
   \<and> (edit_id \<in> ID ` set (load_records (sheet_record st)) \<longrightarrow>
      (\<exists>i r. i < length (load_records (sheet_record st))
           \<and> sheet_record (snd (page_summary_save st edit_id e))
               = (save_all (load_records (sheet_record st)))[i := r]
           \<and> ID r = IntC edit_id
           \<and> duration r = edit_duration e \<and> service_income r = edit_income e
           \<and> tip r = edit_tip e
           \<and> total_income r = py_round (service_income r + tip r) 2
           \<and> hours r = py_round (of_int (duration r) / 60) 2))
   \<and> ((\<forall>r \<in> set (sheet_record st). derived_fields_ok r) \<longrightarrow>
        (\<forall>r \<in> set (sheet_record (snd (page_add_record st f))). derived_fields_ok r)
        \<and> (\<forall>r \<in> set (sheet_record (snd (page_summary_save st edit_id e))). derived_fields_ok r))"
proof (intro conjI impI)
  let ?df = "load_records (sheet_record st)"
  assume "staff_name f \<noteq> [] \<and> client_name_in f \<noteq> []"
  then have "sheet_record (snd (page_add_record st f))
               = save_all ?df @ [set_ID (new_record ?df f) (IntC (ID (new_record ?df f)))]"
    by (simp add: page_add_record_saved save_all_def)
  moreover have "duration (set_ID (new_record ?df f) x) = duration_in f"
    "service_income (set_ID (new_record ?df f) x) = service_income_in f"
    "tip (set_ID (new_record ?df f) x) = tip_in f"
    "total_income (set_ID (new_record ?df f) x) = py_round (service_income_in f + tip_in f) 2"
    "hours (set_ID (new_record ?df f) x) = py_round (of_int (duration_in f) / 60) 2" for x :: cell
    by (simp_all add: new_record_def set_ID_def)
  ultimately show "\<exists>r. sheet_record (snd (page_add_record st f)) = save_all ?df @ [r]
           \<and> duration r = duration_in f \<and> service_income r = service_income_in f
           \<and> tip r = tip_in f
           \<and> total_income r = py_round (service_income r + tip r) 2
           \<and> hours r = py_round (of_int (duration r) / 60) 2"
    by simp
next
  let ?df = "load_records (sheet_record st)"
  assume "edit_id \<in> ID ` set (load_records (sheet_record st))"
  then obtain idx where idx: "idx < length ?df" "ID (?df ! idx) = edit_id"
    and res: "page_summary_save st edit_id e =
               (Inr edit_id,
                (ensure_staff_exists (edit_staff e) st)
                  \<lparr>sheet_record := save_all (?df[idx := edited_record (?df ! idx) e])\<rparr>)"
    using page_summary_save_found [of edit_id st e] by blast
  let ?r = "set_ID (edited_record (?df ! idx) e) (IntC (ID (edited_record (?df ! idx) e)))"
  have "sheet_record (snd (page_summary_save st edit_id e)) = (save_all ?df)[idx := ?r]"
    unfolding res by (simp add: save_all_def map_update)
  moreover have "ID ?r = IntC edit_id" "duration ?r = edit_duration e"
    "service_income ?r = edit_income e" "tip ?r = edit_tip e"
    "total_income ?r = py_round (service_income ?r + tip ?r) 2"
    "hours ?r = py_round (of_int (duration ?r) / 60) 2"
    using idx(2) by (simp_all add: edited_record_def set_ID_def)
  ultimately show "\<exists>i r. i < length ?df
           \<and> sheet_record (snd (page_summary_save st edit_id e)) = (save_all ?df)[i := r]
           \<and> ID r = IntC edit_id
           \<and> duration r = edit_duration e \<and> service_income r = edit_income e
           \<and> tip r = edit_tip e
           \<and> total_income r = py_round (service_income r + tip r) 2
           \<and> hours r = py_round (of_int (duration r) / 60) 2"
    using idx(1) by blast
next
  let ?df = "load_records (sheet_record st)"
  assume a: "\<forall>r \<in> set (sheet_record st). derived_fields_ok r"
  then have df: "\<forall>r \<in> set ?df. derived_fields_ok r"
    by (simp add: derived_ok_load)
  show "\<forall>r \<in> set (sheet_record (snd (page_add_record st f))). derived_fields_ok r"
  proof (cases "staff_name f \<noteq> [] \<and> client_name_in f \<noteq> []")
    case True
    then show ?thesis
      using df by (simp add: page_add_record_saved derived_ok_save derived_ok_new_record)
  next
    case False
    then have "page_add_record st f = (Inl ValidationError, st)"
      by (auto simp: page_add_record_def Let_def)
    then show ?thesis using a by simp
  qed
  show "\<forall>r \<in> set (sheet_record (snd (page_summary_save st edit_id e))). derived_fields_ok r"
  proof (cases "edit_id \<in> ID ` set ?df")
    case True
    then obtain idx where res: "page_summary_save st edit_id e =
               (Inr edit_id,
                (ensure_staff_exists (edit_staff e) st)
                  \<lparr>sheet_record := save_all (?df[idx := edited_record (?df ! idx) e])\<rparr>)"
      using page_summary_save_found [of edit_id st e] by blast
    have "\<forall>r \<in> set (?df[idx := edited_record (?df ! idx) e]). derived_fields_ok r"
      using df derived_ok_edited_record [of "?df ! idx" e]
      by (metis insertE set_update_subset_insert subsetD)
    then show ?thesis
      unfolding res by (simp add: derived_ok_save)
  next
    case False
    then show ?thesis
      using a by (simp add: page_summary_save_absent)
  qed
qed

theorem derived_fields_on_write_witness:
  "staff_name sample_add_form \<noteq> [] \<and> client_name_in sample_add_form \<noteq> []
   \<and> 5 \<in> ID ` set (load_records (sheet_record sample_store))
   \<and> hours (last (sheet_record (snd (page_add_record sample_store sample_add_form)))) = 3 / 4
   \<and> total_income (last (sheet_record (snd (page_add_record sample_store sample_add_form)))) = 101 / 2
   \<and> derived_fields_ok (sheet_record (snd (page_summary_save sample_store 5 sample_edit_form)) ! 1)"
proof -
  have h: "staff_name sample_add_form \<noteq> [] \<and> client_name_in sample_add_form \<noteq> []"
    by (simp add: sample_add_form_def)
  have k: "5 \<in> ID ` set (load_records (sheet_record sample_store))"
    by (simp add: sample_store_def sample_loaded_ids)
  note t = derived_fields_on_write [of sample_add_form sample_store 5 sample_edit_form]
  obtain r where r: "sheet_record (snd (page_add_record sample_store sample_add_form))
              = save_all (load_records (sheet_record sample_store)) @ [r]"
    "duration r = duration_in sample_add_form" "service_income r = service_income_in sample_add_form"
    "tip r = tip_in sample_add_form"
    "total_income r = py_round (service_income r + tip r) 2"
    "hours r = py_round (of_int (duration r) / 60) 2"
    using t h by blast
  have a: "hours r = 3 / 4" "total_income r = 101 / 2"
    unfolding r(5,6) r(2,3,4)
    by (simp_all add: sample_add_form_def py_round_def round_half_even_def Let_def)
  obtain i r' where r': "i < length (load_records (sheet_record sample_store))"
    "sheet_record (snd (page_summary_save sample_store 5 sample_edit_form))
       = (save_all (load_records (sheet_record sample_store)))[i := r']"
    "ID r' = IntC 5"
    "total_income r' = py_round (service_income r' + tip r') 2"
    "hours r' = py_round (of_int (duration r') / 60) 2"
    using t k by blast
  have ok: "derived_fields_ok r'"
    using r'(4,5) by (simp add: derived_fields_ok_def)
  have d45: "duration (sheet_record (snd (page_summary_save sample_store 5 sample_edit_form)) ! 1) = 45"
    by (simp add: page_summary_save_def Let_def sample_store_def sample_loaded save_all_def
          sample_edit_form_def)
       (simp add: sample_row_def set_ID_def)
  have d60: "duration (save_all (load_records (sheet_record sample_store)) ! 1) = 60"
    by (simp add: sample_store_def sample_loaded save_all_def) (simp add: sample_row_def set_ID_def)
  have "i = 1"
  proof (rule ccontr)
    assume "i \<noteq> 1"
    then have "(save_all (load_records (sheet_record sample_store)))[i := r'] ! 1
                 = save_all (load_records (sheet_record sample_store)) ! 1"
      by (rule nth_list_update_neq)
    then have "duration (sheet_record (snd (page_summary_save sample_store 5 sample_edit_form)) ! 1) = 60"
      using d60 by (simp only: r'(2))
    then show False using d45 by simp
  qed
  then have "sheet_record (snd (page_summary_save sample_store 5 sample_edit_form)) ! 1 = r'"
    using r'(1,2) by (simp add: sample_store_def sample_loaded save_all_def)
  then show ?thesis
    using h k a ok r(1) by simp
qed

section \<open>Summaries and the export\<close>

lemma map_summary_key_make_summary:
  "df \<noteq> [] \<Longrightarrow> map summary_key (make_summary df) = sort (remdups (map group_key df))"
  by (simp add: make_summary_def summary_key_def comp_def Let_def)

text \<open>
  Claim C10. On a table that is not empty, \<^verbatim>\<open>make_summary\<close> lists its rows in strictly
  ascending order of the pair (date, employee name), one row for each pair that occurs
  in the table.
\<close>

theorem make_summary_sorted:
  assumes "df \<noteq> []"
  shows "sorted_wrt (<) (map summary_key (make_summary df))
     \<and> set (map summary_key (make_summary df)) = group_key ` set df"
proof -
  have k: "map summary_key (make_summary df) = sort (remdups (map group_key df))"
    using assms by (rule map_summary_key_make_summary)
  have "sorted (sort (remdups (map group_key df)))" "distinct (sort (remdups (map group_key df)))"
    by simp_all
  then have "sorted_wrt (<) (sort (remdups (map group_key df)))"
    by (simp add: strict_sorted_iff)
  then show ?thesis unfolding k by simp
qed

lemma sample_summary_keys:
  "map summary_key (make_summary (load_records sample_sheet))
     = [(''2025-09-21'', ''Ann''), (''2025-10-03'', ''Ann''), (''2025-10-03'', ''Mei'')]"
  by (simp add: sample_loaded make_summary_def summary_key_def group_key_def sample_row_def Let_def)

theorem make_summary_sorted_witness:
  "load_records sample_sheet \<noteq> []
   \<and> map summary_key (make_summary (load_records sample_sheet))
       = [(''2025-09-21'', ''Ann''), (''2025-10-03'', ''Ann''), (''2025-10-03'', ''Mei'')]
   \<and> sorted_wrt (<) [(''2025-09-21'', ''Ann''), (''2025-10-03'', ''Ann''), (''2025-10-03'', ''Mei'')]"
proof -
  have h: "load_records sample_sheet \<noteq> []"
    by (simp add: sample_loaded)
  show ?thesis
    using make_summary_sorted [OF h] h sample_summary_keys by simp
qed

lemma set_map_filter_conv: "set (List.map_filter f xs) = {y. \<exists>x \<in> set xs. f x = Some y}"
  by (induction xs) (auto simp: List.map_filter_simps split: option.splits)

lemma month_keys_sorted: "sorted_wrt (<) (month_keys to_ym df)"
proof -
  have "sorted (month_keys to_ym df)" "distinct (month_keys to_ym df)"
    by (simp_all add: month_keys_def)
  then show ?thesis by (simp add: strict_sorted_iff)
qed

lemma set_month_keys: "set (month_keys to_ym df) = {ym. \<exists>r \<in> set df. to_ym (date r) = Some ym}"
  by (simp add: month_keys_def set_map_filter_conv)

lemma sheet_name_month_sheet [simp]: "sheet_name (month_sheet to_ym df ym) = Month ym"
  by (simp add: month_sheet_def Let_def)

lemma month_sheet_names_append:
  "month_sheet_names (xs @ ys) = month_sheet_names xs @ month_sheet_names ys"
  by (simp add: month_sheet_names_def List.map_filter_def)

lemma month_sheet_names_month_sheets:
  "month_sheet_names (map (month_sheet to_ym df) ks) = ks"
  by (induction ks) (simp_all add: month_sheet_names_def List.map_filter_simps)

lemma month_keys_Nil [simp]: "month_keys to_ym [] = []"
  by (simp add: month_keys_def List.map_filter_simps)

lemma month_sheet_names_export:
  "month_sheet_names (to_excel_all_bytes to_ym st) = month_keys to_ym (load_records (sheet_record st))"
proof (cases "load_records (sheet_record st) = []")
  case True
  then show ?thesis
    by (simp add: to_excel_all_bytes_def Let_def month_sheet_names_def List.map_filter_simps)
next
  case False
  let ?df = "load_records (sheet_record st)"
  obtain b1 b2 b3 b4 where wb: "to_excel_all_bytes to_ym st
      = [b1, b2, b3, b4] @ map (month_sheet to_ym ?df) (month_keys to_ym ?df)"
    and n: "sheet_name b1 = Records_All" "sheet_name b2 = Summary_All"
      "sheet_name b3 = Staff_List" "sheet_name b4 = Monthly_Summary"
    using False by (simp add: to_excel_all_bytes_def Let_def)
  have "month_sheet_names [b1, b2, b3, b4] = []"
    using n by (simp add: month_sheet_names_def List.map_filter_simps)
  then show ?thesis
    unfolding wb month_sheet_names_append month_sheet_names_month_sheets by simp
qed

lemma month_sheet_in_export:
  assumes "s \<in> set (to_excel_all_bytes to_ym st)" and "sheet_name s = Month ym"
  shows "s = month_sheet to_ym (load_records (sheet_record st)) ym"
proof (cases "load_records (sheet_record st) = []")
  case True
  then show ?thesis
    using assms by (auto simp: to_excel_all_bytes_def Let_def)
next
  case False
  then have "s \<in> set (map (month_sheet to_ym (load_records (sheet_record st)))
                      (month_keys to_ym (load_records (sheet_record st))))"
    using assms by (auto simp: to_excel_all_bytes_def Let_def)
  then show ?thesis using assms(2) by auto
qed

text \<open>
  Claim C6. In the full export the month sheets are named by the months that occur in
  the loaded table, one sheet for each month, written in strictly ascending order of the
  month string. The sheet of a month holds the rows of that month, in their order and
  without the helper column, followed by one totals row: the marker in the date column,
  empty text in the ID, employee, client, service, duration and hours columns, and the
  sums of the month in the three income columns.
\<close>

theorem to_excel_all_bytes_month_sheets:
  assumes "df = load_records (sheet_record st)" and "wb = to_excel_all_bytes to_ym st"
  shows "sorted_wrt (<) (month_sheet_names wb)
     \<and> set (month_sheet_names wb) = {ym. \<exists>r \<in> set df. to_ym (date r) = Some ym}
     \<and> (\<forall>ym \<in> set (month_sheet_names wb). \<forall>s \<in> set wb. sheet_name s = Month ym \<longrightarrow>
          header s = COLUMNS
          \<and> body s =
              map row_cells (filter (\<lambda>r. to_ym (date r) = Some ym) df)
              @ [[Txt [], Txt TOTAL_LABEL, Txt [], Txt [], Txt [], Txt [], Txt [],
                  NumC (sum_list (map service_income (filter (\<lambda>r. to_ym (date r) = Some ym) df))),
                  NumC (sum_list (map tip (filter (\<lambda>r. to_ym (date r) = Some ym) df))),
                  NumC (sum_list (map total_income (filter (\<lambda>r. to_ym (date r) = Some ym) df)))]])"
proof (intro conjI ballI impI)
  show "sorted_wrt (<) (month_sheet_names wb)"
    unfolding assms month_sheet_names_export by (rule month_keys_sorted)
  show "set (month_sheet_names wb) = {ym. \<exists>r \<in> set df. to_ym (date r) = Some ym}"
    unfolding assms month_sheet_names_export by (rule set_month_keys)
next
  fix ym s
  assume "s \<in> set wb" and "sheet_name s = Month ym"
  then have s: "s = month_sheet to_ym df ym"
    unfolding assms by (rule month_sheet_in_export)
  show "header s = COLUMNS"
    unfolding s by (simp add: month_sheet_def Let_def)
  show "body s =
              map row_cells (filter (\<lambda>r. to_ym (date r) = Some ym) df)
              @ [[Txt [], Txt TOTAL_LABEL, Txt [], Txt [], Txt [], Txt [], Txt [],
                  NumC (sum_list (map service_income (filter (\<lambda>r. to_ym (date r) = Some ym) df))),
                  NumC (sum_list (map tip (filter (\<lambda>r. to_ym (date r) = Some ym) df))),
                  NumC (sum_list (map total_income (filter (\<lambda>r. to_ym (date r) = Some ym) df)))]]"
    unfolding s by (simp add: month_sheet_def Let_def)
qed

lemma iso_sample_dates:
  "iso_year_month ''2025-10-03'' = Some ''2025-10''"
  "iso_year_month ''2025-09-21'' = Some ''2025-09''"
  by (simp_all add: iso_year_month_def)

lemma sample_month_keys:
  "month_keys iso_year_month (load_records sample_sheet) = [''2025-09'', ''2025-10'']"
  by (simp add: month_keys_def sample_loaded List.map_filter_simps sample_row_def iso_sample_dates)

theorem to_excel_all_bytes_month_sheets_witness:
  "month_sheet_names (to_excel_all_bytes iso_year_month sample_store) = [''2025-09'', ''2025-10'']
   \<and> body (to_excel_all_bytes iso_year_month sample_store ! 4)
       = [[IntC 5, Txt ''2025-09-21'', Txt ''Ann'', Txt ''Kim'', Txt ''Massage'', IntC 60,
           NumC 1, NumC 65, NumC 5, NumC 70],
          [Txt [], Txt TOTAL_LABEL, Txt [], Txt [], Txt [], Txt [], Txt [],
           NumC 65, NumC 5, NumC 70]]"
proof -
  let ?wb = "to_excel_all_bytes iso_year_month sample_store"
  let ?df = "load_records (sheet_record sample_store)"
  note t = to_excel_all_bytes_month_sheets [OF refl refl, where st = sample_store and to_ym = iso_year_month]
  have names: "month_sheet_names ?wb = [''2025-09'', ''2025-10'']"
    by (simp add: month_sheet_names_export sample_store_def sample_month_keys)
  have df: "?df \<noteq> []"
    by (simp add: sample_store_def sample_loaded)
  have s4: "?wb ! 4 = month_sheet iso_year_month ?df ''2025-09''"
    using df by (simp add: to_excel_all_bytes_def Let_def)
       (simp add: sample_store_def sample_month_keys)
  have mem: "?wb ! 4 \<in> set ?wb"
    using df by (intro nth_mem) (simp add: to_excel_all_bytes_def Let_def sample_store_def sample_month_keys)
  have nm: "sheet_name (?wb ! 4) = Month ''2025-09''"
    unfolding s4 by simp
  have "body (?wb ! 4) =
          map row_cells (filter (\<lambda>r. iso_year_month (date r) = Some ''2025-09'') ?df)
          @ [[Txt [], Txt TOTAL_LABEL, Txt [], Txt [], Txt [], Txt [], Txt [],
              NumC (sum_list (map service_income (filter (\<lambda>r. iso_year_month (date r) = Some ''2025-09'') ?df))),
              NumC (sum_list (map tip (filter (\<lambda>r. iso_year_month (date r) = Some ''2025-09'') ?df))),
              NumC (sum_list (map total_income (filter (\<lambda>r. iso_year_month (date r) = Some ''2025-09'') ?df)))]]"
    using t names mem nm by simp
  moreover have "filter (\<lambda>r. iso_year_month (date r) = Some ''2025-09'') ?df
                   = [sample_row 5 ''2025-09-21'' ''Ann'']"
    by (simp add: sample_store_def sample_loaded) (simp add: sample_row_def iso_sample_dates)
  ultimately show ?thesis
    using names by (simp add: row_cells_def sample_row_def)
qed

text \<open>
  Claim C9, as amended. On an empty records table \<^verbatim>\<open>make_summary\<close> returns the table that
  has only its header, and the grouping by month has no row either. The full export
  computes the monthly summary only for a table that is not empty: on the empty table
  it writes the records sheet, the summary sheet, both with a header and no row, and
  the staff sheet, and neither a monthly summary sheet nor a month sheet.
\<close>

theorem to_excel_all_bytes_empty:
  assumes "sheet_record st = []"
  shows "make_summary (load_records (sheet_record st)) = []
     \<and> monthly_summary to_ym (load_records (sheet_record st)) = []
     \<and> to_excel_all_bytes to_ym st =
         [\<lparr>sheet_name = Records_All, header = COLUMNS, body = []\<rparr>,
          \<lparr>sheet_name = Summary_All, header = SUMMARY_COLUMNS, body = []\<rparr>,
          \<lparr>sheet_name = Staff_List, header = STAFF_COLUMNS,
           body = map (\<lambda>n. [Txt n]) (sheet_staff st)\<rparr>]"
proof -
  have "load_records (sheet_record st) = []"
    using assms by (simp add: load_records_def)
  then show ?thesis
    by (simp add: make_summary_def monthly_summary_def to_excel_all_bytes_def Let_def load_staff_def)
qed

theorem to_excel_all_bytes_empty_witness:
  "sheet_record \<lparr>sheet_record = [], sheet_staff = [''Ann'']\<rparr> = []
   \<and> map sheet_name (to_excel_all_bytes iso_year_month \<lparr>sheet_record = [], sheet_staff = [''Ann'']\<rparr>)
       = [Records_All, Summary_All, Staff_List]
   \<and> map body (to_excel_all_bytes iso_year_month \<lparr>sheet_record = [], sheet_staff = [''Ann'']\<rparr>)
       = [[], [], [[Txt ''Ann'']]]"
proof -
  have h: "sheet_record \<lparr>sheet_record = [], sheet_staff = [''Ann'']\<rparr> = []" by simp
  show ?thesis
    using to_excel_all_bytes_empty [OF h, of iso_year_month] by simp
qed

text \<open>
  Claim C9 as stated fails for the monthly summary: the export of an empty records table
  has no monthly summary sheet at all, so no table with the monthly header is returned.
\<close>

theorem monthly_summary_sheet_absent_counterexample:
  "Monthly_Summary \<notin> set (map sheet_name
      (to_excel_all_bytes iso_year_month \<lparr>sheet_record = [], sheet_staff = [''Ann'']\<rparr>))"
  by (simp add: to_excel_all_bytes_def Let_def load_records_def load_staff_def)

end
